theory Spec2Isabelle
  imports Main "HOL-Library.Word"
begin

unbundle bit_operations_syntax

section \<open>The board: pins, levels and the calls the sketch makes\<close>

text \<open>
  The sketch talks to the hardware through three calls of the Arduino core:
  \<^verbatim>\<open>pinMode\<close>, \<^verbatim>\<open>digitalWrite\<close> and \<^verbatim>\<open>delay\<close>. The board keeps, for every physical pin
  number, its mode and the level of its output latch. It also keeps the list of calls made
  so far, each with the levels that hold right after the call (for \<^verbatim>\<open>delay\<close>: the levels
  held during the whole delay), oldest first. The sketch never reads a pin back, so the
  levels are decided by the writes alone.
\<close>

datatype level = LOW | HIGH

datatype pin_mode = INPUT | OUTPUT

datatype call = PinMode int pin_mode | DigitalWrite int level | Delay int

type_synonym levels = "int \<Rightarrow> level"

record board =
  modes :: "int \<Rightarrow> pin_mode"
  levels :: levels
  trace :: "(call \<times> levels) list"

definition power_on :: board where
  "power_on = \<lparr>modes = (\<lambda>_. INPUT), levels = (\<lambda>_. LOW), trace = []\<rparr>"

definition pinMode :: "int \<Rightarrow> pin_mode \<Rightarrow> board \<Rightarrow> board" where
  "pinMode pin m b =
     b\<lparr>modes := (modes b)(pin := m), trace := trace b @ [(PinMode pin m, levels b)]\<rparr>"

definition digitalWrite :: "int \<Rightarrow> level \<Rightarrow> board \<Rightarrow> board" where
  "digitalWrite pin v b =
     b\<lparr>levels := (levels b)(pin := v),
       trace := trace b @ [(DigitalWrite pin v, (levels b)(pin := v))]\<rparr>"

definition delay :: "int \<Rightarrow> board \<Rightarrow> board" where
  "delay ms b = b\<lparr>trace := trace b @ [(Delay ms, levels b)]\<rparr>"

section \<open>Pins and configuration of the sketch\<close>

definition DISPLAY_PIN_A :: int where "DISPLAY_PIN_A = 12"
definition DISPLAY_PIN_B :: int where "DISPLAY_PIN_B = 8"
definition DISPLAY_PIN_C :: int where "DISPLAY_PIN_C = 5"
definition DISPLAY_PIN_D :: int where "DISPLAY_PIN_D = 3"
definition DISPLAY_PIN_E :: int where "DISPLAY_PIN_E = 2"
definition DISPLAY_PIN_F :: int where "DISPLAY_PIN_F = 11"
definition DISPLAY_PIN_G :: int where "DISPLAY_PIN_G = 6"
definition DISPLAY_PIN_DP :: int where "DISPLAY_PIN_DP = 4"
definition DISPLAY_PIN_D1 :: int where "DISPLAY_PIN_D1 = 13"
definition DISPLAY_PIN_D2 :: int where "DISPLAY_PIN_D2 = 10"
definition DISPLAY_PIN_D3 :: int where "DISPLAY_PIN_D3 = 9"
definition DISPLAY_PIN_D4 :: int where "DISPLAY_PIN_D4 = 7"

definition DIGIT_DISPLAY_DELAY :: int where "DIGIT_DISPLAY_DELAY = 1"
definition READ_TIME_PERIOD :: int where "READ_TIME_PERIOD = 1000"
definition DOT_BLINK_PERIOD :: int where "DOT_BLINK_PERIOD = 1000"

section \<open>The Display class\<close>

type_synonym byte = "8 word"

datatype error = IndexOutOfBounds

text \<open>The enum \<^verbatim>\<open>Pins\<close>: indices into \<^verbatim>\<open>m_pins\<close>, in declaration order.\<close>

definition Pins_A :: nat where "Pins_A = 0"
definition Pins_B :: nat where "Pins_B = 1"
definition Pins_C :: nat where "Pins_C = 2"
definition Pins_D :: nat where "Pins_D = 3"
definition Pins_E :: nat where "Pins_E = 4"
definition Pins_F :: nat where "Pins_F = 5"
definition Pins_G :: nat where "Pins_G = 6"
definition Pins_DP :: nat where "Pins_DP = 7"
definition Pins_D1 :: nat where "Pins_D1 = 8"
definition Pins_D2 :: nat where "Pins_D2 = 9"
definition Pins_D3 :: nat where "Pins_D3 = 10"
definition Pins_D4 :: nat where "Pins_D4 = 11"
definition Pins_COUNT :: nat where "Pins_COUNT = 12"

text \<open>
  The segment configurations. The bits are, from the most significant one,
  A, B, C, D, E, F, G and a last bit that is 0.
\<close>

definition D_0 :: byte where "D_0 = 0b11111100"
definition D_1 :: byte where "D_1 = 0b01100000"
definition D_2 :: byte where "D_2 = 0b11011010"
definition D_3 :: byte where "D_3 = 0b11110010"
definition D_4 :: byte where "D_4 = 0b01100110"
definition D_5 :: byte where "D_5 = 0b10110110"
definition D_6 :: byte where "D_6 = 0b10111110"
definition D_7 :: byte where "D_7 = 0b11100000"
definition D_8 :: byte where "D_8 = 0b11111110"
definition D_9 :: byte where "D_9 = 0b11110110"

definition m_digits :: "byte list" where
  "m_digits = [D_0, D_1, D_2, D_3, D_4, D_5, D_6, D_7, D_8, D_9]"

text \<open>
  Reading \<^verbatim>\<open>m_digits[digit]\<close>. The array has 10 entries and the source checks no bound:
  an index outside 0..9 reads past the array, which the model makes an error.
\<close>

definition m_digits_at :: "int \<Rightarrow> error + byte" where
  "m_digits_at digit =
     (if 0 \<le> digit \<and> digit < 10 then Inr (m_digits ! nat digit) else Inl IndexOutOfBounds)"

record Display =
  m_pins :: "int list"

text \<open>
  The constructor: saves the twelve pins at their indices of the enum, then makes every
  pin an output and writes LOW to it. The array starts uninitialised in the source; the
  model starts it with zeros, and all twelve entries are overwritten.
\<close>

function Display_init_loop :: "Display \<Rightarrow> int \<Rightarrow> board \<Rightarrow> board" where
  "Display_init_loop d i b =
     (if i < int Pins_COUNT
      then Display_init_loop d (i + 1)
             (digitalWrite (m_pins d ! nat i) LOW (pinMode (m_pins d ! nat i) OUTPUT b))
      else b)"
  by pat_completeness auto
termination
  by (relation "measure (\<lambda>(d, i, b). nat (int Pins_COUNT - i))") auto

declare Display_init_loop.simps [simp del]

definition Display_new ::
  "int \<Rightarrow> int \<Rightarrow> int \<Rightarrow> int \<Rightarrow> int \<Rightarrow> int \<Rightarrow> int \<Rightarrow> int \<Rightarrow> int \<Rightarrow> int \<Rightarrow> int \<Rightarrow> int \<Rightarrow>
   board \<Rightarrow> Display \<times> board" where
  "Display_new pin_a pin_b pin_c pin_d pin_e pin_f pin_g pin_dp pin_d1 pin_d2 pin_d3 pin_d4 b =
     (let d = \<lparr>m_pins = (replicate Pins_COUNT 0)
                  [Pins_A := pin_a, Pins_B := pin_b, Pins_C := pin_c, Pins_D := pin_d,
                   Pins_E := pin_e, Pins_F := pin_f, Pins_G := pin_g, Pins_DP := pin_dp,
                   Pins_D1 := pin_d1, Pins_D2 := pin_d2, Pins_D3 := pin_d3,
                   Pins_D4 := pin_d4]\<rparr>
      in (d, Display_init_loop d 0 b))"

text \<open>\<^verbatim>\<open>clean\<close>: all four cathodes to HIGH.\<close>

definition clean :: "Display \<Rightarrow> board \<Rightarrow> board" where
  "clean d b =
     digitalWrite (m_pins d ! Pins_D4) HIGH
       (digitalWrite (m_pins d ! Pins_D3) HIGH
         (digitalWrite (m_pins d ! Pins_D2) HIGH
           (digitalWrite (m_pins d ! Pins_D1) HIGH b)))"

text \<open>
  \<^verbatim>\<open>setDigit\<close>: the loop runs \<open>i\<close> from 0 to 6 with a one-bit mask that starts at the
  most significant bit and moves right by one each round. The table entry is the same in
  every round, so the model reads it once, before the first round.
\<close>

function setDigit_loop :: "Display \<Rightarrow> byte \<Rightarrow> int \<Rightarrow> byte \<Rightarrow> board \<Rightarrow> board" where
  "setDigit_loop d cfg i msk b =
     (if i < 7
      then setDigit_loop d cfg (i + 1) (drop_bit 1 msk)
             (digitalWrite (m_pins d ! nat i) (if cfg AND msk \<noteq> 0 then HIGH else LOW) b)
      else b)"
  by pat_completeness auto
termination
  by (relation "measure (\<lambda>(d, cfg, i, msk, b). nat (7 - i))") auto

declare setDigit_loop.simps [simp del]

definition setDigit :: "Display \<Rightarrow> int \<Rightarrow> board \<Rightarrow> error + board" where
  "setDigit d digit b =
     (case m_digits_at digit of
        Inl e \<Rightarrow> Inl e
      | Inr cfg \<Rightarrow> Inr (setDigit_loop d cfg 0 0b10000000 b))"

text \<open>\<^verbatim>\<open>setPosition\<close>: the selected cathode to LOW, the others to HIGH.\<close>

definition setPosition :: "Display \<Rightarrow> int \<Rightarrow> board \<Rightarrow> board" where
  "setPosition d pos b =
     digitalWrite (m_pins d ! Pins_D4) (if pos = 3 then LOW else HIGH)
       (digitalWrite (m_pins d ! Pins_D3) (if pos = 2 then LOW else HIGH)
         (digitalWrite (m_pins d ! Pins_D2) (if pos = 1 then LOW else HIGH)
           (digitalWrite (m_pins d ! Pins_D1) (if pos = 0 then LOW else HIGH) b)))"

definition drawAt :: "Display \<Rightarrow> int \<Rightarrow> int \<Rightarrow> bool \<Rightarrow> board \<Rightarrow> error + board" where
  "drawAt d pos digit displayDot b =
     (case setDigit d digit (clean d b) of
        Inl e \<Rightarrow> Inl e
      | Inr b1 \<Rightarrow>
          Inr (delay DIGIT_DISPLAY_DELAY
                (setPosition d pos
                  (digitalWrite (m_pins d ! Pins_DP) (if displayDot then HIGH else LOW) b1))))"

text \<open>The global object \<^verbatim>\<open>d\<close> of the sketch, constructed on a board that has just powered on.\<close>

definition d_new :: "Display \<times> board" where
  "d_new =
     Display_new DISPLAY_PIN_A DISPLAY_PIN_B DISPLAY_PIN_C DISPLAY_PIN_D DISPLAY_PIN_E
       DISPLAY_PIN_F DISPLAY_PIN_G DISPLAY_PIN_DP DISPLAY_PIN_D1 DISPLAY_PIN_D2 DISPLAY_PIN_D3
       DISPLAY_PIN_D4 power_on"

section \<open>The sketch: the cached time and the main loop\<close>

text \<open>
  Modelled from the spec: the type \<^verbatim>\<open>RTCDateTime\<close> is declared in the DS3231 library, which
  is not part of the sources. The spec gives the reading as \<open>{hour, minute}\<close>, each an
  unsigned small integer; the sketch uses no other field.
\<close>

record RTCDateTime =
  hour :: nat
  minute :: nat

record sketch =
  currentDateTime :: RTCDateTime
  lastReadTimestamp :: "32 word"

text \<open>
  What one round of \<^verbatim>\<open>loop\<close> gets from outside: the count of the millisecond clock at
  each of its three calls of \<^verbatim>\<open>millis\<close> (the check of the period, the stamp taken after a
  read, the blink), not wrapped, and the time the real time clock would return.
  \<^verbatim>\<open>millis\<close> returns an \<^verbatim>\<open>unsigned long\<close>: the count modulo \<open>2 ^ 32\<close>.
\<close>

record readings =
  clock_check :: nat
  clock_stamp :: nat
  clock_blink :: nat
  rtc :: RTCDateTime

definition millis :: "nat \<Rightarrow> 32 word" where
  "millis t = of_nat t"

text \<open>
  \<^verbatim>\<open>setup\<close>: after starting the real time clock and setting it, reads the time once
  and stamps the read with \<^verbatim>\<open>millis\<close>.
\<close>

definition sketch_setup :: "readings \<Rightarrow> sketch" where
  "sketch_setup r = \<lparr>currentDateTime = rtc r, lastReadTimestamp = millis (clock_stamp r)\<rparr>"

text \<open>The condition under which \<^verbatim>\<open>loop\<close> calls \<^verbatim>\<open>clock.getDateTime\<close>.\<close>

definition time_due :: "readings \<Rightarrow> sketch \<Rightarrow> bool" where
  "time_due r s = (millis (clock_check r) - lastReadTimestamp s \<ge> of_int READ_TIME_PERIOD)"

definition update_time :: "readings \<Rightarrow> sketch \<Rightarrow> sketch" where
  "update_time r s =
     (if time_due r s
      then s\<lparr>currentDateTime := rtc r, lastReadTimestamp := millis (clock_stamp r)\<rparr>
      else s)"

definition blinkingDotState :: "32 word \<Rightarrow> bool" where
  "blinkingDotState m = (m mod of_int DOT_BLINK_PERIOD \<ge> of_int (DOT_BLINK_PERIOD div 2))"

definition loop :: "Display \<Rightarrow> readings \<Rightarrow> sketch \<Rightarrow> board \<Rightarrow> error + sketch \<times> board" where
  "loop d r s b =
     (let s1 = update_time r s;
          dot = blinkingDotState (millis (clock_blink r));
          h = int (hour (currentDateTime s1));
          m = int (minute (currentDateTime s1))
      in case drawAt d 0 (h div 10) False b of
           Inl e \<Rightarrow> Inl e
         | Inr b1 \<Rightarrow>
             (case drawAt d 1 (h mod 10) dot b1 of
                Inl e \<Rightarrow> Inl e
              | Inr b2 \<Rightarrow>
                  (case drawAt d 2 (m div 10) False b2 of
                     Inl e \<Rightarrow> Inl e
                   | Inr b3 \<Rightarrow>
                       (case drawAt d 3 (m mod 10) False b3 of
                          Inl e \<Rightarrow> Inl e
                        | Inr b4 \<Rightarrow> Inr (s1, b4)))))"

text \<open>Rounds of \<^verbatim>\<open>loop\<close>, one after the other, as the Arduino core calls it.\<close>

fun loops :: "Display \<Rightarrow> readings list \<Rightarrow> sketch \<Rightarrow> board \<Rightarrow> error + sketch \<times> board" where
  "loops d [] s b = Inr (s, b)"
| "loops d (r # rs) s b =
     (case loop d r s b of
        Inl e \<Rightarrow> Inl e
      | Inr (s1, b1) \<Rightarrow> loops d rs s1 b1)"

section \<open>What is seen on the display\<close>

text \<open>
  A digit position is lit when its cathode is LOW. The pins of a display are wired when
  the twelve roles have twelve different pins.
\<close>

definition wired :: "Display \<Rightarrow> bool" where
  "wired d = (length (m_pins d) = Pins_COUNT \<and> distinct (m_pins d))"

definition selected :: "Display \<Rightarrow> levels \<Rightarrow> nat list" where
  "selected d lv = filter (\<lambda>k. lv (m_pins d ! (Pins_D1 + k)) = LOW) [0, 1, 2, 3]"

definition cathodes :: "Display \<Rightarrow> levels \<Rightarrow> level list" where
  "cathodes d lv = map (\<lambda>k. lv (m_pins d ! k)) [Pins_D1, Pins_D2, Pins_D3, Pins_D4]"

definition segments :: "Display \<Rightarrow> levels \<Rightarrow> level list" where
  "segments d lv =
     map (\<lambda>k. lv (m_pins d ! k)) [Pins_A, Pins_B, Pins_C, Pins_D, Pins_E, Pins_F, Pins_G]"

definition dot_lit :: "Display \<Rightarrow> levels \<Rightarrow> bool" where
  "dot_lit d lv = (lv (m_pins d ! Pins_DP) = HIGH)"

text \<open>The levels of A to G that a configuration byte asks for: bits 7 down to 1.\<close>

definition pattern :: "byte \<Rightarrow> level list" where
  "pattern cfg = map (\<lambda>k. if bit cfg k then HIGH else LOW) [7, 6, 5, 4, 3, 2, 1]"

text \<open>The digit whose configuration gives these levels of A to G, if there is one.\<close>

definition shown_digit :: "level list \<Rightarrow> nat option" where
  "shown_digit segs = find (\<lambda>n. pattern (m_digits ! n) = segs) [0 ..< 10]"

text \<open>The calls made between two boards, and the levels held during the delays among them.\<close>

definition since :: "board \<Rightarrow> board \<Rightarrow> (call \<times> levels) list" where
  "since b b' = drop (length (trace b)) (trace b')"

fun is_Delay :: "call \<Rightarrow> bool" where
  "is_Delay (Delay ms) = True"
| "is_Delay _ = False"

definition dwells :: "(call \<times> levels) list \<Rightarrow> levels list" where
  "dwells es = map snd (filter (\<lambda>e. is_Delay (fst e)) es)"

text \<open>A write to one of the segment pins A to G or to the dot pin.\<close>

fun segment_write :: "Display \<Rightarrow> call \<Rightarrow> bool" where
  "segment_write d (DigitalWrite pin v) = (pin \<in> set (take Pins_D1 (m_pins d)))"
| "segment_write d _ = False"

definition frame :: "Display \<Rightarrow> levels \<Rightarrow> nat list \<times> nat option \<times> bool" where
  "frame d lv = (selected d lv, shown_digit (segments d lv), dot_lit d lv)"

fun clock_monotone :: "nat \<Rightarrow> readings list \<Rightarrow> bool" where
  "clock_monotone t [] = True"
| "clock_monotone t (r # rs) =
     (t \<le> clock_check r \<and> clock_check r \<le> clock_stamp r \<and> clock_stamp r \<le> clock_blink r \<and>
      clock_monotone (clock_blink r) rs)"

section \<open>Basic facts\<close>

lemmas Pins_defs =
  Pins_A_def Pins_B_def Pins_C_def Pins_D_def Pins_E_def Pins_F_def Pins_G_def
  Pins_DP_def Pins_D1_def Pins_D2_def Pins_D3_def Pins_D4_def Pins_COUNT_def

lemmas D_defs =
  D_0_def D_1_def D_2_def D_3_def D_4_def D_5_def D_6_def D_7_def D_8_def D_9_def

lemma levels_digitalWrite [simp]: "levels (digitalWrite p v b) = (levels b)(p := v)"
  and trace_digitalWrite [simp]:
    "trace (digitalWrite p v b) = trace b @ [(DigitalWrite p v, (levels b)(p := v))]"
  and modes_digitalWrite [simp]: "modes (digitalWrite p v b) = modes b"
  by (simp_all add: digitalWrite_def)

lemma levels_pinMode [simp]: "levels (pinMode p m b) = levels b"
  and trace_pinMode [simp]: "trace (pinMode p m b) = trace b @ [(PinMode p m, levels b)]"
  and modes_pinMode [simp]: "modes (pinMode p m b) = (modes b)(p := m)"
  by (simp_all add: pinMode_def)

lemma levels_delay [simp]: "levels (delay ms b) = levels b"
  and trace_delay [simp]: "trace (delay ms b) = trace b @ [(Delay ms, levels b)]"
  and modes_delay [simp]: "modes (delay ms b) = modes b"
  by (simp_all add: delay_def)

lemma setDigit_loop_unroll:
  "setDigit_loop d cfg 0 0b10000000 b =
     digitalWrite (m_pins d ! 6) (if cfg AND 2 \<noteq> 0 then HIGH else LOW)
      (digitalWrite (m_pins d ! 5) (if cfg AND 4 \<noteq> 0 then HIGH else LOW)
       (digitalWrite (m_pins d ! 4) (if cfg AND 8 \<noteq> 0 then HIGH else LOW)
        (digitalWrite (m_pins d ! 3) (if cfg AND 16 \<noteq> 0 then HIGH else LOW)
         (digitalWrite (m_pins d ! 2) (if cfg AND 32 \<noteq> 0 then HIGH else LOW)
          (digitalWrite (m_pins d ! 1) (if cfg AND 64 \<noteq> 0 then HIGH else LOW)
           (digitalWrite (m_pins d ! 0) (if cfg AND 128 \<noteq> 0 then HIGH else LOW) b))))))"
  by (simp add: setDigit_loop.simps split del: if_split)

lemma and_bit:
  "(cfg AND 128 \<noteq> 0) = bit cfg 7" "(cfg AND 64 \<noteq> 0) = bit cfg 6"
  "(cfg AND 32 \<noteq> 0) = bit cfg 5" "(cfg AND 16 \<noteq> 0) = bit cfg 4"
  "(cfg AND 8 \<noteq> 0) = bit cfg 3" "(cfg AND 4 \<noteq> 0) = bit cfg 2"
  "(cfg AND 2 \<noteq> 0) = bit cfg 1"
  for cfg :: byte
  by (simp_all add: bit_iff_and_push_bit_not_eq_0)

lemma m_digits_at_ok:
  "0 \<le> digit \<Longrightarrow> digit \<le> 9 \<Longrightarrow> m_digits_at digit = Inr (m_digits ! nat digit)"
  by (simp add: m_digits_at_def)

lemma wired_nth:
  "wired d \<Longrightarrow> i < 12 \<Longrightarrow> j < 12 \<Longrightarrow> (m_pins d ! i = m_pins d ! j) = (i = j)"
  by (simp add: wired_def Pins_COUNT_def nth_eq_iff_index_eq)

lemma drawAt_returns:
  "0 \<le> digit \<Longrightarrow> digit \<le> 9 \<Longrightarrow> \<exists>b'. drawAt d pos digit displayDot b = Inr b'"
  by (simp add: drawAt_def setDigit_def m_digits_at_ok)

lemma drawAt_Inr:
  assumes "drawAt d pos digit displayDot b = Inr b'"
  shows "0 \<le> digit" and "digit \<le> 9"
    and "b' = delay DIGIT_DISPLAY_DELAY (setPosition d pos
               (digitalWrite (m_pins d ! Pins_DP) (if displayDot then HIGH else LOW)
                 (setDigit_loop d (m_digits ! nat digit) 0 0b10000000 (clean d b))))"
  using assms
  by (auto simp add: drawAt_def setDigit_def m_digits_at_def split: sum.splits if_splits)

lemmas body_defs = setDigit_loop_unroll clean_def setPosition_def DIGIT_DISPLAY_DELAY_def

lemma drawAt_trace:
  assumes "drawAt d pos digit displayDot b = Inr b'"
  shows "trace b' = trace b @ since b b'" and "dwells (since b b') = [levels b']"
    and "length (since b b') = 17"
  unfolding drawAt_Inr(3) [OF assms]
  by (simp_all add: body_defs since_def dwells_def)

lemma drawAt_selected:
  assumes "drawAt d pos digit displayDot b = Inr b'" and "wired d" and "0 \<le> pos" and "pos \<le> 3"
  shows "selected d (levels b') = [nat pos]"
  unfolding drawAt_Inr(3) [OF assms(1)] using assms(2-)
  by (simp add: body_defs selected_def wired_nth Pins_defs split del: if_split cong: if_cong)
    auto

lemma drawAt_segments:
  assumes "drawAt d pos digit displayDot b = Inr b'" and "wired d"
  shows "segments d (levels b') = pattern (m_digits ! nat digit)"
  unfolding drawAt_Inr(3) [OF assms(1)] using assms(2-)
  by (simp add: body_defs segments_def pattern_def wired_nth Pins_defs and_bit
        split del: if_split cong: if_cong)

lemma drawAt_dot:
  assumes "drawAt d pos digit displayDot b = Inr b'" and "wired d"
  shows "dot_lit d (levels b') = displayDot"
  unfolding drawAt_Inr(3) [OF assms(1)] using assms(2-)
  by (cases displayDot) (simp_all add: body_defs dot_lit_def wired_nth Pins_defs)

lemma below_10: "n < 10 \<Longrightarrow> n \<in> {0, 1, 2, 3, 4, 5, 6, 7, 8, 9}" for n :: nat
  by auto

lemma shown_digit_pattern: 
  assumes "n < 10" shows "shown_digit (pattern (m_digits ! n)) = Some n"
proof -
  have "\<forall>n \<in> {0, 1, 2, 3, 4, 5, 6, 7, 8, 9}. shown_digit (pattern (m_digits ! n)) = Some n"
    by (simp add: shown_digit_def pattern_def m_digits_def D_defs upt_rec [of _ "numeral _"])
  with below_10 [OF assms] show ?thesis by blast
qed

lemma pattern_table:
  "map pattern m_digits =
    [[HIGH, HIGH, HIGH, HIGH, HIGH, HIGH, LOW],
     [LOW, HIGH, HIGH, LOW, LOW, LOW, LOW],
     [HIGH, HIGH, LOW, HIGH, HIGH, LOW, HIGH],
     [HIGH, HIGH, HIGH, HIGH, LOW, LOW, HIGH],
     [LOW, HIGH, HIGH, LOW, LOW, HIGH, HIGH],
     [HIGH, LOW, HIGH, HIGH, LOW, HIGH, HIGH],
     [HIGH, LOW, HIGH, HIGH, HIGH, HIGH, HIGH],
     [HIGH, HIGH, HIGH, LOW, LOW, LOW, LOW],
     [HIGH, HIGH, HIGH, HIGH, HIGH, HIGH, HIGH],
     [HIGH, HIGH, HIGH, HIGH, LOW, HIGH, HIGH]]"
  by (simp add: pattern_def m_digits_def D_defs)

lemma drawAt_frame:
  assumes "drawAt d pos digit displayDot b = Inr b'" and "wired d" and "0 \<le> pos" and "pos \<le> 3"
  shows "map (frame d) (dwells (since b b')) = [([nat pos], Some (nat digit), displayDot)]"
proof -
  from drawAt_Inr(1,2) [OF assms(1)] have "nat digit < 10" by simp
  then show ?thesis
    using assms
    by (simp add: drawAt_trace frame_def drawAt_selected drawAt_segments drawAt_dot
        shown_digit_pattern)
qed


lemma m_pins_d_new:
  "m_pins (fst d_new) = [12, 8, 5, 3, 2, 11, 6, 4, 13, 10, 9, 7]"
  by (simp add: d_new_def Display_new_def Pins_defs DISPLAY_PIN_A_def DISPLAY_PIN_B_def
      DISPLAY_PIN_C_def DISPLAY_PIN_D_def DISPLAY_PIN_E_def DISPLAY_PIN_F_def DISPLAY_PIN_G_def
      DISPLAY_PIN_DP_def DISPLAY_PIN_D1_def DISPLAY_PIN_D2_def DISPLAY_PIN_D3_def
      DISPLAY_PIN_D4_def numeral_eq_Suc Let_def)

lemma wired_d_new: "wired (fst d_new)"
  by (simp add: wired_def m_pins_d_new Pins_COUNT_def)

lemma drawAt_cathodes:
  assumes "drawAt d pos digit displayDot b = Inr b'" and "wired d" and "0 \<le> pos" and "pos \<le> 3"
  shows "cathodes d (levels b') = (replicate 4 HIGH)[nat pos := LOW]"
proof -
  from assms(3,4) have "pos = 0 \<or> pos = 1 \<or> pos = 2 \<or> pos = 3" by arith
  then show ?thesis
    unfolding drawAt_Inr(3) [OF assms(1)] using assms(2)
    by (auto simp add: body_defs cathodes_def wired_nth Pins_defs numeral_eq_Suc)
qed

lemma drawAt_blank:
  assumes "drawAt d pos digit displayDot b = Inr b'" and "pos < 0 \<or> 3 < pos"
  shows "cathodes d (levels b') = [HIGH, HIGH, HIGH, HIGH]" and "selected d (levels b') = []"
  unfolding drawAt_Inr(3) [OF assms(1)] using assms(2)
  by (auto simp add: body_defs cathodes_def selected_def Pins_defs)

lemma Display_init_loop_unroll:
  "Display_init_loop d 0 b =
    digitalWrite (m_pins d ! 11) LOW (pinMode (m_pins d ! 11) OUTPUT
    (digitalWrite (m_pins d ! 10) LOW (pinMode (m_pins d ! 10) OUTPUT
    (digitalWrite (m_pins d ! 9) LOW (pinMode (m_pins d ! 9) OUTPUT
    (digitalWrite (m_pins d ! 8) LOW (pinMode (m_pins d ! 8) OUTPUT
    (digitalWrite (m_pins d ! 7) LOW (pinMode (m_pins d ! 7) OUTPUT
    (digitalWrite (m_pins d ! 6) LOW (pinMode (m_pins d ! 6) OUTPUT
    (digitalWrite (m_pins d ! 5) LOW (pinMode (m_pins d ! 5) OUTPUT
    (digitalWrite (m_pins d ! 4) LOW (pinMode (m_pins d ! 4) OUTPUT
    (digitalWrite (m_pins d ! 3) LOW (pinMode (m_pins d ! 3) OUTPUT
    (digitalWrite (m_pins d ! 2) LOW (pinMode (m_pins d ! 2) OUTPUT
    (digitalWrite (m_pins d ! 1) LOW (pinMode (m_pins d ! 1) OUTPUT
    (digitalWrite (m_pins d ! 0) LOW (pinMode (m_pins d ! 0) OUTPUT b)))))))))))))))))))))))"
  by (simp add: Display_init_loop.simps Pins_COUNT_def)

lemma Display_new_pins:
  "m_pins (fst (Display_new a b c d' e f g dp d1 d2 d3 d4 bd)) = [a, b, c, d', e, f, g, dp, d1, d2, d3, d4]"
  by (simp add: Display_new_def Pins_defs numeral_eq_Suc Let_def)


lemma levels_d_new: "levels (snd d_new) = (\<lambda>_. LOW)"
  by (simp add: d_new_def Display_new_def Let_def Display_init_loop_unroll power_on_def fun_eq_iff)


lemma segment_pin:
  assumes "wired d" and "k < 12"
  shows "(m_pins d ! k \<in> set (take 8 (m_pins d))) = (k < 8)"
proof
  assume "m_pins d ! k \<in> set (take 8 (m_pins d))"
  then obtain i where i: "i < 8" "i < length (m_pins d)" "m_pins d ! i = m_pins d ! k"
    by (auto simp add: in_set_conv_nth)
  with assms have "i = k" by (simp add: wired_def Pins_COUNT_def nth_eq_iff_index_eq)
  with i show "k < 8" by simp
next
  assume "k < 8"
  with assms show "m_pins d ! k \<in> set (take 8 (m_pins d))"
    by (auto simp add: in_set_conv_nth wired_def Pins_COUNT_def intro!: exI [of _ k])
qed

lemma drawAt_segment_writes:
  assumes "drawAt d pos digit displayDot b = Inr b'" and "wired d"
  shows "list_all (\<lambda>e. segment_write d (fst e) \<longrightarrow> selected d (snd e) = []) (since b b')"
    and "length (filter (\<lambda>e. segment_write d (fst e)) (since b b')) = 8"
  unfolding drawAt_Inr(3) [OF assms(1)] using assms(2)
  by (simp_all add: body_defs since_def selected_def wired_nth Pins_defs segment_pin
      split del: if_split)

lemma if_LOW [simp]: "((if c then LOW else HIGH) = LOW) = c"
  by simp

lemma drawAt_after_clean:
  assumes "drawAt d pos digit displayDot b = Inr b'" and "wired d"
  shows "map (selected d) (drop 3 (map snd (since b b'))) =
           [[], [], [], [], [], [], [], [], []] @
           map (\<lambda>k. if 0 \<le> pos \<and> pos \<le> k then [nat pos] else []) [0, 1, 2, 3, 3]"
proof -
  consider "pos = 0" | "pos = 1" | "pos = 2" | "pos = 3" | "pos < 0" | "3 < pos" by arith
  then show ?thesis
    unfolding drawAt_Inr(3) [OF assms(1)] using assms(2)
    by cases
      (simp_all add: body_defs since_def selected_def wired_nth Pins_defs split del: if_split)
qed

lemma drawAt_during_clean:
  assumes "drawAt d pos digit displayDot b = Inr b'" and "wired d"
    and "length (selected d (levels b)) \<le> 1"
  shows "list_all (\<lambda>lv. length (selected d lv) \<le> 1) (take 3 (map snd (since b b')))"
  unfolding drawAt_Inr(3) [OF assms(1)] using assms(2,3)
  by (simp add: body_defs since_def selected_def wired_nth Pins_defs split del: if_split)
    (auto split: if_splits)

lemma drawAt_at_most_one:
  assumes "drawAt d pos digit displayDot b = Inr b'" and "wired d"
    and "length (selected d (levels b)) \<le> 1"
  shows "list_all (\<lambda>lv. length (selected d lv) \<le> 1) (map snd (since b b'))"
proof -
  let ?xs = "map snd (since b b')"
  have "list_all (\<lambda>l. length l \<le> 1) (map (selected d) (drop 3 ?xs))"
    unfolding drawAt_after_clean [OF assms(1,2)] by simp
  then have "list_all (\<lambda>lv. length (selected d lv) \<le> 1) (drop 3 ?xs)"
    by (simp add: list_all_iff)
  with drawAt_during_clean [OF assms]
  have "list_all (\<lambda>lv. length (selected d lv) \<le> 1) (take 3 ?xs @ drop 3 ?xs)"
    by (simp only: list_all_append simp_thms)
  then show ?thesis by simp
qed

lemma m_digits_low_bit: "list_all (\<lambda>cfg. \<not> bit cfg 0) m_digits"
  by (simp add: m_digits_def D_defs)

lemma setDigit_loop_low_bit:
  "setDigit_loop d (cfg XOR 1) 0 0b10000000 b = setDigit_loop d cfg 0 0b10000000 b"
  by (simp add: setDigit_loop_unroll and_bit bit_xor_iff bit_1_iff split del: if_split)

lemma setDigit_Inr:
  assumes "0 \<le> digit" and "digit \<le> 9"
  shows "setDigit d digit b = Inr (setDigit_loop d (m_digits ! nat digit) 0 0b10000000 b)"
  using assms by (simp add: setDigit_def m_digits_at_ok)

lemma setDigit_loop_calls:
  "trace (setDigit_loop d cfg 0 0b10000000 b) = trace b @ since b (setDigit_loop d cfg 0 0b10000000 b)"
  "map fst (since b (setDigit_loop d cfg 0 0b10000000 b)) =
     map (\<lambda>k. DigitalWrite (m_pins d ! k) (if bit cfg (7 - k) then HIGH else LOW))
       [Pins_A, Pins_B, Pins_C, Pins_D, Pins_E, Pins_F, Pins_G]"
  "modes (setDigit_loop d cfg 0 0b10000000 b) = modes b"
  by (simp_all add: setDigit_loop_unroll since_def and_bit Pins_defs split del: if_split)

lemma setDigit_loop_frame:
  assumes "wired d" and "7 \<le> k" and "k < 12"
  shows "levels (setDigit_loop d cfg 0 0b10000000 b) (m_pins d ! k) = levels b (m_pins d ! k)"
  using assms by (simp add: setDigit_loop_unroll wired_nth split del: if_split)


lemma dwells_append: "dwells (xs @ ys) = dwells xs @ dwells ys"
  by (simp add: dwells_def)

lemma since_append:
  assumes "trace b1 = trace b @ since b b1" and "trace b2 = trace b1 @ since b1 b2"
  shows "since b b2 = since b b1 @ since b1 b2" and "trace b2 = trace b @ since b b2"
proof -
  from assms have "trace b2 = trace b @ since b b1 @ since b1 b2" by simp
  then show "since b b2 = since b b1 @ since b1 b2" by (simp add: since_def [of b b2])
  with assms show "trace b2 = trace b @ since b b2" by simp
qed


lemma unat_millis_diff:
  assumes "t \<le> c"
  shows "unat (millis c - millis t) = (c - t) mod 2 ^ 32"
proof -
  from assms have "millis c - millis t = (of_nat (c - t) :: 32 word)"
    by (simp add: millis_def)
  then show ?thesis by (simp add: unat_of_nat)
qed

lemma due_gap:
  assumes "t \<le> c" and "lastReadTimestamp s = millis t" and "clock_check r = c" and "time_due r s"
  shows "t + nat READ_TIME_PERIOD \<le> c"
proof -
  from assms(2-4) have "(1000 :: 32 word) \<le> millis c - millis t"
    by (simp add: time_due_def READ_TIME_PERIOD_def)
  then have "1000 \<le> unat (millis c - millis t)"
    by (simp add: word_le_nat_alt)
  also have "\<dots> \<le> c - t"
    unfolding unat_millis_diff [OF assms(1)] by simp
  finally show ?thesis using assms(1) by (simp add: READ_TIME_PERIOD_def)
qed

lemma not_due_in_window:
  assumes "t \<le> clock_check r" and "lastReadTimestamp s = millis t"
    and "clock_check r < t + nat READ_TIME_PERIOD"
  shows "\<not> time_due r s"
proof -
  from assms(1,3) have "clock_check r - t < 1000" by (simp add: READ_TIME_PERIOD_def)
  then have "unat (millis (clock_check r) - millis t) < 1000"
    unfolding unat_millis_diff [OF assms(1)] by simp
  then show ?thesis
    by (simp add: time_due_def READ_TIME_PERIOD_def assms(2) word_le_nat_alt)
qed

lemma loop_sketch:
  assumes "loop d r s b = Inr (s', b')"
  shows "s' = update_time r s"
  using assms by (auto simp add: loop_def Let_def split: sum.splits)

lemma loops_sketch:
  "loops d rs s b = Inr (s', b') \<Longrightarrow> s' = fold update_time rs s"
proof (induction rs arbitrary: s b)
  case Nil
  then show ?case by simp
next
  case (Cons r rs)
  from Cons.prems obtain s1 b1 where step: "loop d r s b = Inr (s1, b1)"
    and rest: "loops d rs s1 b1 = Inr (s', b')"
    by (auto split: sum.splits)
  from loop_sketch [OF step] Cons.IH [OF rest] show ?case by simp
qed

lemma stamp_between:
  assumes "clock_monotone t0 (rs @ [r2])" and "lastReadTimestamp s = millis t" and "t \<le> t0"
  shows "\<exists>t'. lastReadTimestamp (fold update_time rs s) = millis t' \<and> t \<le> t' \<and> t' \<le> clock_check r2"
  using assms
proof (induction rs arbitrary: s t t0)
  case Nil
  then show ?case by auto
next
  case (Cons r rs)
  from Cons.prems(1) have mono: "t0 \<le> clock_check r" "clock_check r \<le> clock_stamp r"
    "clock_stamp r \<le> clock_blink r" "clock_monotone (clock_blink r) (rs @ [r2])"
    by simp_all
  show ?case
  proof (cases "time_due r s")
    case True
    then have "lastReadTimestamp (update_time r s) = millis (clock_stamp r)"
      by (simp add: update_time_def)
    from Cons.IH [OF mono(4) this mono(3)] mono Cons.prems(3) show ?thesis
      by auto
  next
    case False
    then have same: "update_time r s = s" by (simp add: update_time_def)
    from mono Cons.prems(3) have "t \<le> clock_blink r" by simp
    from Cons.IH [OF mono(4) Cons.prems(2) this] same show ?thesis by simp
  qed
qed

lemma reads_spaced:
  assumes "time_due r1 s" and "clock_monotone t0 (r1 # rs @ [r2])"
    and "loops d (r1 # rs) s b = Inr (s', b')" and "time_due r2 s'"
  shows "clock_stamp r1 + nat READ_TIME_PERIOD \<le> clock_check r2"
proof -
  from assms(2) have mono: "clock_stamp r1 \<le> clock_blink r1"
    "clock_monotone (clock_blink r1) (rs @ [r2])"
    by simp_all
  from assms(1) have "lastReadTimestamp (update_time r1 s) = millis (clock_stamp r1)"
    by (simp add: update_time_def)
  from stamp_between [OF mono(2) this mono(1)] loops_sketch [OF assms(3)]
  obtain t' where t': "lastReadTimestamp s' = millis t'" "clock_stamp r1 \<le> t'"
    "t' \<le> clock_check r2"
    by auto
  from due_gap [OF t'(3) t'(1) refl assms(4)] t'(2) show ?thesis by simp
qed

lemma quiet_window:
  assumes "clock_monotone t0 rs" and "lastReadTimestamp s = millis t" and "t \<le> t0"
    and "\<forall>r \<in> set rs. clock_check r < t + nat READ_TIME_PERIOD"
  shows "fold update_time rs s = s"
  using assms
proof (induction rs arbitrary: t0)
  case Nil
  then show ?case by simp
next
  case (Cons r rs)
  from Cons.prems(1) have mono: "t0 \<le> clock_check r" "clock_check r \<le> clock_blink r"
    "clock_monotone (clock_blink r) rs"
    by simp_all
  from mono Cons.prems(3) have le: "t \<le> clock_check r" "t \<le> clock_blink r" by simp_all
  from Cons.prems(4) have "clock_check r < t + nat READ_TIME_PERIOD" by simp
  from not_due_in_window [OF le(1) Cons.prems(2) this] have same: "update_time r s = s"
    by (simp add: update_time_def)
  from Cons.IH [OF mono(3) Cons.prems(2) le(2)] Cons.prems(4) same show ?case by simp
qed

lemma cache_stable:
  assumes "time_due r1 s" and "clock_monotone t0 (r1 # rs)"
    and "\<forall>r \<in> set rs. clock_check r < clock_stamp r1 + nat READ_TIME_PERIOD"
    and "loops d (r1 # rs) s b = Inr (s', b')"
  shows "currentDateTime s' = rtc r1" and "lastReadTimestamp s' = millis (clock_stamp r1)"
proof -
  from assms(2) have mono: "clock_stamp r1 \<le> clock_blink r1" "clock_monotone (clock_blink r1) rs"
    by simp_all
  from assms(1) have upd: "lastReadTimestamp (update_time r1 s) = millis (clock_stamp r1)"
    "currentDateTime (update_time r1 s) = rtc r1"
    by (simp_all add: update_time_def)
  from quiet_window [OF mono(2) upd(1) mono(1) assms(3)] loops_sketch [OF assms(4)]
  have "s' = update_time r1 s" by simp
  with upd show "currentDateTime s' = rtc r1" and "lastReadTimestamp s' = millis (clock_stamp r1)"
    by simp_all
qed

lemma loop_returns:
  assumes "hour (currentDateTime (update_time r s)) < 100"
    and "minute (currentDateTime (update_time r s)) < 100"
  shows "\<exists>b'. loop d r s b = Inr (update_time r s, b')"
proof -
  let ?h = "int (hour (currentDateTime (update_time r s)))"
  let ?m = "int (minute (currentDateTime (update_time r s)))"
  from assms have rng: "0 \<le> ?h div 10" "?h div 10 \<le> 9" "0 \<le> ?h mod 10" "?h mod 10 \<le> 9"
    "0 \<le> ?m div 10" "?m div 10 \<le> 9" "0 \<le> ?m mod 10" "?m mod 10 \<le> 9"
    by simp_all
  from drawAt_returns [OF rng(1,2)] obtain b1 where b1: "drawAt d 0 (?h div 10) False b = Inr b1"
    by blast
  from drawAt_returns [OF rng(3,4)] obtain b2
    where b2: "drawAt d 1 (?h mod 10) (blinkingDotState (millis (clock_blink r))) b1 = Inr b2"
    by blast
  from drawAt_returns [OF rng(5,6)] obtain b3 where b3: "drawAt d 2 (?m div 10) False b2 = Inr b3"
    by blast
  from drawAt_returns [OF rng(7,8)] obtain b4 where b4: "drawAt d 3 (?m mod 10) False b3 = Inr b4"
    by blast
  show ?thesis by (simp add: loop_def Let_def b1 b2 b3 b4)
qed

lemma loops_returns:
  assumes "hour (currentDateTime s) < 100" and "minute (currentDateTime s) < 100"
    and "list_all (\<lambda>r. hour (rtc r) < 100 \<and> minute (rtc r) < 100) rs"
  shows "\<exists>s' b'. loops d rs s b = Inr (s', b')"
  using assms
proof (induction rs arbitrary: s b)
  case Nil
  then show ?case by simp
next
  case (Cons r rs)
  from Cons.prems have ok: "hour (currentDateTime (update_time r s)) < 100"
    "minute (currentDateTime (update_time r s)) < 100"
    by (simp_all add: update_time_def)
  from loop_returns [OF ok] obtain b1 where b1: "loop d r s b = Inr (update_time r s, b1)"
    by blast
  from Cons.IH [OF ok, of b1] Cons.prems(3) b1 show ?case by simp
qed

section \<open>Drawing one digit\<close>

text \<open>
  C1: for a position in 0..3 and a digit in 0..9, whatever the dot, \<^verbatim>\<open>drawAt\<close> returns, and
  at its one delay exactly the cathode of the position is LOW and the other three are
  HIGH: the only position lit is the given one. The twelve pins are different pins.
\<close>

theorem drawAt_selects_position:
  assumes "wired d" and "0 \<le> pos" and "pos \<le> 3" and "0 \<le> digit" and "digit \<le> 9"
  shows "\<exists>b'. drawAt d pos digit displayDot b = Inr b' \<and>
           map (cathodes d) (dwells (since b b')) = [(replicate 4 HIGH)[nat pos := LOW]] \<and>
           map (selected d) (dwells (since b b')) = [[nat pos]]"
proof -
  from drawAt_returns [OF assms(4,5)]
  obtain b' where b': "drawAt d pos digit displayDot b = Inr b'" by blast
  from b' assms(1-3) show ?thesis
    by (simp add: drawAt_trace drawAt_cathodes drawAt_selected)
qed

theorem drawAt_selects_position_witness:
  "wired (fst d_new) \<and>
   (\<exists>b'. drawAt (fst d_new) 2 5 True (snd d_new) = Inr b' \<and>
      map (cathodes (fst d_new)) (dwells (since (snd d_new) b')) = [[HIGH, HIGH, LOW, HIGH]] \<and>
      map (selected (fst d_new)) (dwells (since (snd d_new) b')) = [[2]])"
  using drawAt_selects_position [of "fst d_new" 2 5 True "snd d_new"]
  by (simp add: wired_d_new numeral_eq_Suc)

text \<open>
  C3: for a digit in 0..9, after \<^verbatim>\<open>drawAt\<close> has returned the levels of the segment pins
  A to G are those that bits 7 down to 1 of the digit's entry of \<^verbatim>\<open>m_digits\<close> ask for:
  HIGH where the bit is 1, LOW where it is 0.
\<close>

theorem drawAt_segments_pattern:
  assumes "wired d" and "0 \<le> digit" and "digit \<le> 9"
  shows "\<exists>b'. drawAt d pos digit displayDot b = Inr b' \<and>
           segments d (levels b') = pattern (m_digits ! nat digit)"
proof -
  from drawAt_returns [OF assms(2,3)]
  obtain b' where b': "drawAt d pos digit displayDot b = Inr b'" by blast
  from b' assms(1) show ?thesis
    by (simp add: drawAt_segments)
qed

theorem drawAt_segments_pattern_witness:
  "wired (fst d_new) \<and>
   (\<exists>b'. drawAt (fst d_new) 0 7 False (snd d_new) = Inr b' \<and>
      segments (fst d_new) (levels b') = [HIGH, HIGH, HIGH, LOW, LOW, LOW, LOW])"
  using drawAt_segments_pattern [of "fst d_new" 7 0 False "snd d_new"]
  by (simp add: wired_d_new pattern_def m_digits_def D_defs)

text \<open>
  C4: after \<^verbatim>\<open>drawAt\<close> has returned the dot pin is HIGH when \<^verbatim>\<open>displayDot\<close> is true and LOW
  when it is false, whatever the position and the digit.
\<close>

theorem drawAt_dot_level:
  assumes "wired d" and "0 \<le> digit" and "digit \<le> 9"
  shows "\<exists>b'. drawAt d pos digit displayDot b = Inr b' \<and>
           levels b' (m_pins d ! Pins_DP) = (if displayDot then HIGH else LOW) \<and>
           dot_lit d (levels b') = displayDot"
proof -
  from drawAt_returns [OF assms(2,3)]
  obtain b' where b': "drawAt d pos digit displayDot b = Inr b'" by blast
  from drawAt_dot [OF b' assms(1)] have "dot_lit d (levels b') = displayDot" .
  then have "levels b' (m_pins d ! Pins_DP) = (if displayDot then HIGH else LOW)"
    by (cases "levels b' (m_pins d ! Pins_DP)") (auto simp add: dot_lit_def)
  with b' drawAt_dot [OF b' assms(1)] show ?thesis by simp
qed

theorem drawAt_dot_level_witness:
  "wired (fst d_new) \<and>
   (\<exists>b'. drawAt (fst d_new) 1 3 True (snd d_new) = Inr b' \<and>
      levels b' (m_pins (fst d_new) ! Pins_DP) = HIGH \<and> dot_lit (fst d_new) (levels b'))"
  using drawAt_dot_level [of "fst d_new" 3 1 True "snd d_new"]
  by (simp add: wired_d_new)

text \<open>
  C9: for a position outside 0..3 and a digit in 0..9, \<^verbatim>\<open>drawAt\<close> returns with all four
  cathodes HIGH, at its delay and after it: no position is lit.
\<close>

theorem drawAt_position_out_of_range:
  assumes "pos < 0 \<or> 3 < pos" and "0 \<le> digit" and "digit \<le> 9"
  shows "\<exists>b'. drawAt d pos digit displayDot b = Inr b' \<and>
           map (cathodes d) (dwells (since b b')) = [[HIGH, HIGH, HIGH, HIGH]] \<and>
           cathodes d (levels b') = [HIGH, HIGH, HIGH, HIGH] \<and>
           selected d (levels b') = []"
proof -
  from drawAt_returns [OF assms(2,3)]
  obtain b' where b': "drawAt d pos digit displayDot b = Inr b'" by blast
  from b' assms(1) show ?thesis
    by (simp add: drawAt_trace drawAt_blank)
qed

theorem drawAt_position_out_of_range_witness:
  "\<exists>b'. drawAt (fst d_new) 4 8 False (snd d_new) = Inr b' \<and>
      map (cathodes (fst d_new)) (dwells (since (snd d_new) b')) = [[HIGH, HIGH, HIGH, HIGH]] \<and>
      cathodes (fst d_new) (levels b') = [HIGH, HIGH, HIGH, HIGH] \<and>
      selected (fst d_new) (levels b') = []"
  using drawAt_position_out_of_range [of 4 8 "fst d_new" False "snd d_new"]
  by simp

text \<open>
  C2, as amended: in a call of \<^verbatim>\<open>drawAt\<close> with a digit in 0..9 on twelve different pins,
  right after each of the eight writes to a segment pin or to the dot pin no position is
  selected, and from the last write of \<^verbatim>\<open>clean\<close> on the selected positions are: none
  until \<^verbatim>\<open>setPosition\<close> writes the cathode of the given position, then that position
  alone. During the first three writes of \<^verbatim>\<open>clean\<close> at most one position is selected
  when at most one was selected before the call. The claim as stated fails for the first
  call after the constructor, which leaves all four cathodes LOW.
\<close>

theorem drawAt_select_lines:
  assumes "wired d" and "0 \<le> digit" and "digit \<le> 9"
  shows "\<exists>b'. drawAt d pos digit displayDot b = Inr b' \<and>
           list_all (\<lambda>e. segment_write d (fst e) \<longrightarrow> selected d (snd e) = []) (since b b') \<and>
           length (filter (\<lambda>e. segment_write d (fst e)) (since b b')) = 8 \<and>
           map (selected d) (drop 3 (map snd (since b b'))) =
             [[], [], [], [], [], [], [], [], []] @
             map (\<lambda>k. if 0 \<le> pos \<and> pos \<le> k then [nat pos] else []) [0, 1, 2, 3, 3] \<and>
           (length (selected d (levels b)) \<le> 1 \<longrightarrow>
              list_all (\<lambda>lv. length (selected d lv) \<le> 1) (map snd (since b b')))"
proof -
  from drawAt_returns [OF assms(2,3)]
  obtain b' where b': "drawAt d pos digit displayDot b = Inr b'" by blast
  from b' drawAt_segment_writes [OF b' assms(1)] drawAt_after_clean [OF b' assms(1)]
    drawAt_at_most_one [OF b' assms(1)]
  show ?thesis by blast
qed

theorem drawAt_select_lines_witness:
  "wired (fst d_new) \<and>
   length (selected (fst d_new)
     (levels (projr (drawAt (fst d_new) 0 0 False (snd d_new))))) \<le> 1 \<and>
   (\<exists>b'. drawAt (fst d_new) 1 7 True (projr (drawAt (fst d_new) 0 0 False (snd d_new))) = Inr b' \<and>
      length (filter (\<lambda>e. segment_write (fst d_new) (fst e))
        (since (projr (drawAt (fst d_new) 0 0 False (snd d_new))) b')) = 8 \<and>
      map (selected (fst d_new))
        (drop 3 (map snd (since (projr (drawAt (fst d_new) 0 0 False (snd d_new))) b'))) =
        [[], [], [], [], [], [], [], [], [], [], [1], [1], [1], [1]] \<and>
      list_all (\<lambda>lv. length (selected (fst d_new) lv) \<le> 1)
        (map snd (since (projr (drawAt (fst d_new) 0 0 False (snd d_new))) b')))"
proof -
  obtain b1 where b1: "drawAt (fst d_new) 0 0 False (snd d_new) = Inr b1"
    using drawAt_returns [of 0 "fst d_new" 0 False "snd d_new"] by auto
  from drawAt_selected [OF b1 wired_d_new] have one: "selected (fst d_new) (levels b1) = [0]"
    by simp
  from drawAt_select_lines [of "fst d_new" 7 1 True b1] one b1 show ?thesis
    by (auto simp add: wired_d_new)
qed

theorem drawAt_first_call_counterexample:
  "\<not> isl (drawAt (fst d_new) 0 0 False (snd d_new)) \<and>
   map (selected (fst d_new))
     (map snd (since (snd d_new) (projr (drawAt (fst d_new) 0 0 False (snd d_new))))) =
   [[1, 2, 3], [2, 3], [3], [], [], [], [], [], [], [], [], [], [0], [0], [0], [0], [0]]"
proof -
  obtain b' where b': "drawAt (fst d_new) 0 0 False (snd d_new) = Inr b'"
    using drawAt_returns [of 0 "fst d_new" 0 False "snd d_new"] by auto
  have "map (selected (fst d_new)) (map snd (since (snd d_new) b')) =
    [[1, 2, 3], [2, 3], [3], [], [], [], [], [], [], [], [], [], [0], [0], [0], [0], [0]]"
    unfolding drawAt_Inr(3) [OF b']
    by (simp add: body_defs since_def selected_def m_pins_d_new Pins_defs levels_d_new
      split del: if_split)
  with b' show ?thesis by simp
qed

text \<open>
  C10: for a digit in 0..9, \<^verbatim>\<open>setDigit\<close> makes exactly seven calls, the writes to the pins
  A to G with the levels of bits 7 down to 1 of the digit's entry; it leaves the dot pin,
  the four cathodes and the pin modes as they were. Bit 0 of every entry of \<^verbatim>\<open>m_digits\<close>
  is 0, and an entry with bit 0 flipped gives the same board.
\<close>

theorem setDigit_frame:
  assumes "wired d" and "0 \<le> digit" and "digit \<le> 9"
  shows "\<exists>b'. setDigit d digit b = Inr b' \<and>
     map fst (since b b') =
       map (\<lambda>k. DigitalWrite (m_pins d ! k)
                  (if bit (m_digits ! nat digit) (7 - k) then HIGH else LOW))
         [Pins_A, Pins_B, Pins_C, Pins_D, Pins_E, Pins_F, Pins_G] \<and>
     levels b' (m_pins d ! Pins_DP) = levels b (m_pins d ! Pins_DP) \<and>
     cathodes d (levels b') = cathodes d (levels b) \<and>
     modes b' = modes b \<and>
     list_all (\<lambda>cfg. \<not> bit cfg 0) m_digits \<and>
     setDigit_loop d (m_digits ! nat digit XOR 1) 0 0b10000000 b = b'"
  by (simp add: setDigit_Inr [OF assms(2,3)] setDigit_loop_calls setDigit_loop_frame [OF assms(1)]
      cathodes_def Pins_DP_def Pins_D1_def Pins_D2_def Pins_D3_def Pins_D4_def m_digits_low_bit
      setDigit_loop_low_bit)

theorem setDigit_frame_witness:
  "wired (fst d_new) \<and>
   (\<exists>b'. setDigit (fst d_new) 4 (snd d_new) = Inr b' \<and>
      map fst (since (snd d_new) b') =
        [DigitalWrite 12 LOW, DigitalWrite 8 HIGH, DigitalWrite 5 HIGH, DigitalWrite 3 LOW,
         DigitalWrite 2 LOW, DigitalWrite 11 HIGH, DigitalWrite 6 HIGH] \<and>
      levels b' DISPLAY_PIN_DP = levels (snd d_new) DISPLAY_PIN_DP \<and>
      cathodes (fst d_new) (levels b') = cathodes (fst d_new) (levels (snd d_new)) \<and>
      modes b' = modes (snd d_new))"
  using setDigit_frame [of "fst d_new" 4 "snd d_new"]
  by (simp add: wired_d_new m_pins_d_new Pins_defs m_digits_def D_defs DISPLAY_PIN_DP_def)

section \<open>The constructor\<close>

text \<open>
  C7, as amended: the constructor saves the twelve pins, makes each of them an output and
  writes LOW to each of them, the four cathodes included: after it the segment and dot
  pins are LOW and the four cathodes are LOW as well, which is their selecting level. The
  claim as stated has the cathodes HIGH.
\<close>

theorem Display_new_all_low:
  "case Display_new pin_a pin_b pin_c pin_d pin_e pin_f pin_g pin_dp pin_d1 pin_d2 pin_d3 pin_d4 b
   of (d, b') \<Rightarrow>
     m_pins d =
       [pin_a, pin_b, pin_c, pin_d, pin_e, pin_f, pin_g, pin_dp, pin_d1, pin_d2, pin_d3, pin_d4] \<and>
     list_all (\<lambda>p. modes b' p = OUTPUT \<and> levels b' p = LOW) (m_pins d) \<and>
     cathodes d (levels b') = [LOW, LOW, LOW, LOW]"
  by (simp add: Display_new_def Let_def Display_init_loop_unroll)
    (simp add: Pins_defs numeral_eq_Suc cathodes_def)

theorem Display_new_cathodes_counterexample:
  "cathodes (fst d_new) (levels (snd d_new)) = [LOW, LOW, LOW, LOW]"
  by (simp add: cathodes_def levels_d_new)

section \<open>The main loop\<close>

text \<open>
  C5, as amended: the blink state is a function of the value \<^verbatim>\<open>millis\<close> returns alone,
  which is the count of elapsed milliseconds modulo \<open>2 ^ 32\<close>: it is true exactly when the
  remainder of that value modulo \<^verbatim>\<open>DOT_BLINK_PERIOD\<close> is at least half of
  \<^verbatim>\<open>DOT_BLINK_PERIOD\<close>. For a count \<open>t\<close> below \<open>2 ^ 32\<close> this is
  \<open>t mod DOT_BLINK_PERIOD \<ge> DOT_BLINK_PERIOD / 2\<close>: false in the first half of every period
  and true in the second. The claim as stated, for every count of elapsed milliseconds,
  fails once the counter has wrapped, since \<open>2 ^ 32\<close> is no multiple of the period.
\<close>

theorem blinkingDotState_phase:
  "blinkingDotState m = (DOT_BLINK_PERIOD div 2 \<le> uint m mod DOT_BLINK_PERIOD) \<and>
   blinkingDotState (millis t) =
     (nat (DOT_BLINK_PERIOD div 2) \<le> t mod 2 ^ 32 mod nat DOT_BLINK_PERIOD) \<and>
   (t < 2 ^ 32 \<longrightarrow>
      blinkingDotState (millis t) = (nat (DOT_BLINK_PERIOD div 2) \<le> t mod nat DOT_BLINK_PERIOD))"
proof (intro conjI impI)
  show "blinkingDotState m = (DOT_BLINK_PERIOD div 2 \<le> uint m mod DOT_BLINK_PERIOD)"
    by (simp add: blinkingDotState_def DOT_BLINK_PERIOD_def word_le_def uint_mod_distrib)
  show count: "blinkingDotState (millis t) =
      (nat (DOT_BLINK_PERIOD div 2) \<le> t mod 2 ^ 32 mod nat DOT_BLINK_PERIOD)"
    by (simp add: blinkingDotState_def DOT_BLINK_PERIOD_def millis_def word_le_nat_alt
        unat_mod_distrib unat_of_nat)
  assume "t < 2 ^ 32"
  with count show "blinkingDotState (millis t) =
      (nat (DOT_BLINK_PERIOD div 2) \<le> t mod nat DOT_BLINK_PERIOD)"
    by simp
qed

theorem blinkingDotState_phase_witness:
  "(600 :: nat) < 2 ^ 32 \<and> blinkingDotState (millis 600) \<and>
   (1200 :: nat) < 2 ^ 32 \<and> \<not> blinkingDotState (millis 1200)"
  using blinkingDotState_phase [of 0 600] blinkingDotState_phase [of 0 1200]
  by (simp add: DOT_BLINK_PERIOD_def)

theorem blinkingDotState_wrap_counterexample:
  "\<not> blinkingDotState (millis 4294967596) \<and>
   nat (DOT_BLINK_PERIOD div 2) \<le> 4294967596 mod nat DOT_BLINK_PERIOD"
  by (simp add: blinkingDotState_def DOT_BLINK_PERIOD_def millis_def)

text \<open>
  C6: one round of \<^verbatim>\<open>loop\<close> on a cached time with hour and minute below 100 holds four
  delays. At them the positions 0, 1, 2, 3 are lit, in this order, each alone, showing the
  tens and units of the hour and the tens and units of the minute; the dot is lit at
  position 1 exactly when the blink state is true and is dark at positions 0, 2 and 3.
\<close>

theorem loop_renders_time:
  assumes "wired d"
    and "hour (currentDateTime (update_time r s)) < 100"
    and "minute (currentDateTime (update_time r s)) < 100"
  shows "\<exists>b'. loop d r s b = Inr (update_time r s, b') \<and>
           map (frame d) (dwells (since b b')) =
             [([0], Some (hour (currentDateTime (update_time r s)) div 10), False),
              ([1], Some (hour (currentDateTime (update_time r s)) mod 10),
                 blinkingDotState (millis (clock_blink r))),
              ([2], Some (minute (currentDateTime (update_time r s)) div 10), False),
              ([3], Some (minute (currentDateTime (update_time r s)) mod 10), False)]"
proof -
  let ?h = "int (hour (currentDateTime (update_time r s)))"
  let ?m = "int (minute (currentDateTime (update_time r s)))"
  let ?dot = "blinkingDotState (millis (clock_blink r))"
  from assms(2,3) have rng: "0 \<le> ?h div 10" "?h div 10 \<le> 9" "0 \<le> ?h mod 10" "?h mod 10 \<le> 9"
    "0 \<le> ?m div 10" "?m div 10 \<le> 9" "0 \<le> ?m mod 10" "?m mod 10 \<le> 9"
    by simp_all
  from drawAt_returns [OF rng(1,2)] obtain b1 where b1: "drawAt d 0 (?h div 10) False b = Inr b1"
    by blast
  from drawAt_returns [OF rng(3,4)] obtain b2 where b2: "drawAt d 1 (?h mod 10) ?dot b1 = Inr b2"
    by blast
  from drawAt_returns [OF rng(5,6)] obtain b3 where b3: "drawAt d 2 (?m div 10) False b2 = Inr b3"
    by blast
  from drawAt_returns [OF rng(7,8)] obtain b4 where b4: "drawAt d 3 (?m mod 10) False b3 = Inr b4"
    by blast
  have run: "loop d r s b = Inr (update_time r s, b4)"
    by (simp add: loop_def Let_def b1 b2 b3 b4)
  note t1 = drawAt_trace(1) [OF b1] and t2 = drawAt_trace(1) [OF b2]
    and t3 = drawAt_trace(1) [OF b3] and t4 = drawAt_trace(1) [OF b4]
  note s2 = since_append [OF t1 t2]
  note s3 = since_append [OF s2(2) t3]
  note s4 = since_append [OF s3(2) t4]
  have "since b b4 = since b b1 @ since b1 b2 @ since b2 b3 @ since b3 b4"
    by (simp add: s4(1) s3(1) s2(1))
  then have "map (frame d) (dwells (since b b4)) =
      map (frame d) (dwells (since b b1)) @ map (frame d) (dwells (since b1 b2)) @
      map (frame d) (dwells (since b2 b3)) @ map (frame d) (dwells (since b3 b4))"
    by (simp add: dwells_append)
  also have "\<dots> = [([0], Some (nat (?h div 10)), False), ([1], Some (nat (?h mod 10)), ?dot),
      ([2], Some (nat (?m div 10)), False), ([3], Some (nat (?m mod 10)), False)]"
    using drawAt_frame [OF b1 assms(1)] drawAt_frame [OF b2 assms(1)]
      drawAt_frame [OF b3 assms(1)] drawAt_frame [OF b4 assms(1)]
    by simp
  finally show ?thesis using run
    by (simp add: nat_div_distrib nat_mod_distrib)
qed

theorem loop_renders_time_witness:
  "wired (fst d_new) \<and>
   (\<exists>b'. loop (fst d_new)
           \<lparr>clock_check = 10, clock_stamp = 10, clock_blink = 600,
              rtc = \<lparr>hour = 7, minute = 6\<rparr>\<rparr>
           \<lparr>currentDateTime = \<lparr>hour = 7, minute = 5\<rparr>, lastReadTimestamp = 0\<rparr> (snd d_new) =
         Inr (\<lparr>currentDateTime = \<lparr>hour = 7, minute = 5\<rparr>, lastReadTimestamp = 0\<rparr>, b') \<and>
      map (frame (fst d_new)) (dwells (since (snd d_new) b')) =
        [([0], Some 0, False), ([1], Some 7, True), ([2], Some 0, False), ([3], Some 5, False)]) \<and>
   (\<exists>b'. loop (fst d_new)
           \<lparr>clock_check = 3000, clock_stamp = 3001, clock_blink = 3200,
              rtc = \<lparr>hour = 23, minute = 59\<rparr>\<rparr>
           \<lparr>currentDateTime = \<lparr>hour = 23, minute = 58\<rparr>, lastReadTimestamp = 2000\<rparr>
           (snd d_new) =
         Inr (\<lparr>currentDateTime = \<lparr>hour = 23, minute = 59\<rparr>, lastReadTimestamp = 3001\<rparr>, b') \<and>
      map (frame (fst d_new)) (dwells (since (snd d_new) b')) =
        [([0], Some 2, False), ([1], Some 3, False), ([2], Some 5, False), ([3], Some 9, False)])"
  using
    loop_renders_time [of "fst d_new"
      "\<lparr>clock_check = 10, clock_stamp = 10, clock_blink = 600, rtc = \<lparr>hour = 7, minute = 6\<rparr>\<rparr>"
      "\<lparr>currentDateTime = \<lparr>hour = 7, minute = 5\<rparr>, lastReadTimestamp = 0\<rparr>" "snd d_new"]
    loop_renders_time [of "fst d_new"
      "\<lparr>clock_check = 3000, clock_stamp = 3001, clock_blink = 3200,
         rtc = \<lparr>hour = 23, minute = 59\<rparr>\<rparr>"
      "\<lparr>currentDateTime = \<lparr>hour = 23, minute = 58\<rparr>, lastReadTimestamp = 2000\<rparr>"
      "snd d_new"]
  by (simp add: wired_d_new update_time_def time_due_def millis_def blinkingDotState_def
      READ_TIME_PERIOD_def DOT_BLINK_PERIOD_def)

text \<open>
  C8: \<^verbatim>\<open>loop\<close> calls \<^verbatim>\<open>clock.getDateTime\<close> in the rounds where \<^verbatim>\<open>time_due\<close> holds, and
  only there. With a clock that never runs backwards: when a round reads and a later round
  reads again, the later round's check of the clock is at least \<^verbatim>\<open>READ_TIME_PERIOD\<close> counts
  after the stamp taken right after the earlier read; through rounds whose check comes less
  than \<^verbatim>\<open>READ_TIME_PERIOD\<close> counts after that stamp the cached time stays the value read
  then, whatever the real time clock holds in those rounds; and a round that does not read
  leaves the cached time and the stamp as they are.
\<close>

theorem time_read_cadence:
  "(time_due r1 s \<and> clock_monotone t0 (r1 # rs @ [r2]) \<and>
    loops d (r1 # rs) s b = Inr (s', b') \<and> time_due r2 s' \<longrightarrow>
      clock_stamp r1 + nat READ_TIME_PERIOD \<le> clock_check r2) \<and>
   (time_due r1 s \<and> clock_monotone t0 (r1 # rs) \<and>
    (\<forall>r \<in> set rs. clock_check r < clock_stamp r1 + nat READ_TIME_PERIOD) \<and>
    loops d (r1 # rs) s b = Inr (s', b') \<longrightarrow>
      currentDateTime s' = rtc r1 \<and> lastReadTimestamp s' = millis (clock_stamp r1)) \<and>
   (\<not> time_due r s \<and> loop d r s b = Inr (s', b') \<longrightarrow> s' = s)"
proof (intro conjI impI)
  assume "time_due r1 s \<and> clock_monotone t0 (r1 # rs @ [r2]) \<and>
    loops d (r1 # rs) s b = Inr (s', b') \<and> time_due r2 s'"
  then show "clock_stamp r1 + nat READ_TIME_PERIOD \<le> clock_check r2"
    using reads_spaced [of r1 s t0 rs r2 d b s' b'] by blast
next
  assume a: "time_due r1 s \<and> clock_monotone t0 (r1 # rs) \<and>
    (\<forall>r \<in> set rs. clock_check r < clock_stamp r1 + nat READ_TIME_PERIOD) \<and>
    loops d (r1 # rs) s b = Inr (s', b')"
  then show "currentDateTime s' = rtc r1"
    using cache_stable(1) [of r1 s t0 rs d b s' b'] by blast
  from a show "lastReadTimestamp s' = millis (clock_stamp r1)"
    using cache_stable(2) [of r1 s t0 rs d b s' b'] by blast
next
  assume "\<not> time_due r s \<and> loop d r s b = Inr (s', b')"
  then show "s' = s"
    using loop_sketch [of d r s b s' b'] by (simp add: update_time_def)
qed

theorem time_read_cadence_witness:
  "time_due
     \<lparr>clock_check = 1000, clock_stamp = 1001, clock_blink = 1001, rtc = \<lparr>hour = 7, minute = 6\<rparr>\<rparr>
     \<lparr>currentDateTime = \<lparr>hour = 7, minute = 5\<rparr>, lastReadTimestamp = 0\<rparr> \<and>
   clock_monotone 0
     [\<lparr>clock_check = 1000, clock_stamp = 1001, clock_blink = 1001, rtc = \<lparr>hour = 7, minute = 6\<rparr>\<rparr>,
      \<lparr>clock_check = 1500, clock_stamp = 1500, clock_blink = 1500, rtc = \<lparr>hour = 8, minute = 0\<rparr>\<rparr>,
      \<lparr>clock_check = 2001, clock_stamp = 2002, clock_blink = 2002, rtc = \<lparr>hour = 7, minute = 7\<rparr>\<rparr>] \<and>
   (\<exists>s' b'.
      loops (fst d_new)
        [\<lparr>clock_check = 1000, clock_stamp = 1001, clock_blink = 1001,
           rtc = \<lparr>hour = 7, minute = 6\<rparr>\<rparr>,
         \<lparr>clock_check = 1500, clock_stamp = 1500, clock_blink = 1500,
           rtc = \<lparr>hour = 8, minute = 0\<rparr>\<rparr>]
        \<lparr>currentDateTime = \<lparr>hour = 7, minute = 5\<rparr>, lastReadTimestamp = 0\<rparr> (snd d_new) =
        Inr (s', b') \<and>
      time_due
        \<lparr>clock_check = 2001, clock_stamp = 2002, clock_blink = 2002,
          rtc = \<lparr>hour = 7, minute = 7\<rparr>\<rparr> s' \<and>
      currentDateTime s' = \<lparr>hour = 7, minute = 6\<rparr> \<and>
      lastReadTimestamp s' = millis 1001) \<and>
   (1500 :: nat) < 1001 + nat READ_TIME_PERIOD \<and>
   (1001 :: nat) + nat READ_TIME_PERIOD \<le> 2001 \<and>
   \<not> time_due
     \<lparr>clock_check = 1500, clock_stamp = 1500, clock_blink = 1500, rtc = \<lparr>hour = 8, minute = 0\<rparr>\<rparr>
     \<lparr>currentDateTime = \<lparr>hour = 7, minute = 6\<rparr>, lastReadTimestamp = millis 1001\<rparr> \<and>
   (\<exists>b'.
      loop (fst d_new)
        \<lparr>clock_check = 1500, clock_stamp = 1500, clock_blink = 1500,
          rtc = \<lparr>hour = 8, minute = 0\<rparr>\<rparr>
        \<lparr>currentDateTime = \<lparr>hour = 7, minute = 6\<rparr>, lastReadTimestamp = millis 1001\<rparr>
        (snd d_new) =
      Inr (\<lparr>currentDateTime = \<lparr>hour = 7, minute = 6\<rparr>, lastReadTimestamp = millis 1001\<rparr>, b'))"
proof -
  let ?r1 = "\<lparr>clock_check = 1000, clock_stamp = 1001, clock_blink = 1001,
    rtc = \<lparr>hour = 7, minute = 6\<rparr>\<rparr>"
  let ?rm = "\<lparr>clock_check = 1500, clock_stamp = 1500, clock_blink = 1500,
    rtc = \<lparr>hour = 8, minute = 0\<rparr>\<rparr>"
  let ?r2 = "\<lparr>clock_check = 2001, clock_stamp = 2002, clock_blink = 2002,
    rtc = \<lparr>hour = 7, minute = 7\<rparr>\<rparr>"
  let ?s0 = "\<lparr>currentDateTime = \<lparr>hour = 7, minute = 5\<rparr>, lastReadTimestamp = 0\<rparr>"
  let ?s1 = "\<lparr>currentDateTime = \<lparr>hour = 7, minute = 6\<rparr>, lastReadTimestamp = millis 1001\<rparr>"
  have due1: "time_due ?r1 ?s0"
    by (simp add: time_due_def millis_def READ_TIME_PERIOD_def)
  have mono: "clock_monotone 0 [?r1, ?rm, ?r2]" by simp
  have quiet: "\<not> time_due ?rm ?s1"
    by (simp add: time_due_def millis_def READ_TIME_PERIOD_def)
  have due2: "time_due ?r2 ?s1"
    by (simp add: time_due_def millis_def READ_TIME_PERIOD_def)
  have s1: "update_time ?rm (update_time ?r1 ?s0) = ?s1" "update_time ?rm ?s1 = ?s1"
    using due1 quiet by (simp_all add: update_time_def)
  obtain s' b' where run: "loops (fst d_new) [?r1, ?rm] ?s0 (snd d_new) = Inr (s', b')"
    using loops_returns [of ?s0 "[?r1, ?rm]" "fst d_new" "snd d_new"] by auto
  from loops_sketch [OF run] s1 have s': "s' = ?s1" by simp
  obtain s2 b1 where step: "loop (fst d_new) ?rm ?s1 (snd d_new) = Inr (s2, b1)"
    using loop_returns [of ?rm ?s1 "fst d_new" "snd d_new"] s1 by auto
  note spaced = time_read_cadence [where ?r1.0 = ?r1 and s = ?s0 and ?t0.0 = 0 and rs = "[?rm]"
      and ?r2.0 = ?r2 and d = "fst d_new" and b = "snd d_new" and s' = s' and b' = b',
      THEN conjunct1]
  note stable = time_read_cadence [where ?r1.0 = ?r1 and s = ?s0 and ?t0.0 = 0 and rs = "[?rm]"
      and d = "fst d_new" and b = "snd d_new" and s' = s' and b' = b',
      THEN conjunct2, THEN conjunct1]
  note same = time_read_cadence [where r = ?rm and s = ?s1 and d = "fst d_new"
      and b = "snd d_new" and s' = s2 and b' = b1, THEN conjunct2, THEN conjunct2]
  from spaced due1 mono run due2 s'
  have gap: "(1001 :: nat) + nat READ_TIME_PERIOD \<le> 2001" by simp
  have window: "(1500 :: nat) < 1001 + nat READ_TIME_PERIOD" by (simp add: READ_TIME_PERIOD_def)
  from stable due1 mono run window
  have cached: "currentDateTime s' = \<lparr>hour = 7, minute = 6\<rparr>" "lastReadTimestamp s' = millis 1001"
    by simp_all
  from same quiet step have s2: "s2 = ?s1" by simp
  from run due2 s' cached
  have e1: "\<exists>s' b'. loops (fst d_new) [?r1, ?rm] ?s0 (snd d_new) = Inr (s', b') \<and>
      time_due ?r2 s' \<and> currentDateTime s' = \<lparr>hour = 7, minute = 6\<rparr> \<and>
      lastReadTimestamp s' = millis 1001"
    by blast
  from step s2 have e2: "\<exists>b'. loop (fst d_new) ?rm ?s1 (snd d_new) = Inr (?s1, b')"
    by blast
  from due1 mono e1 window gap quiet e2 show ?thesis
    by (intro conjI)
qed

end
